theory Spec2Isabelle
  imports Main "HOL-Library.Word"
begin

section \<open>The EncryptedOKRPlatformFHE contract\<close>

text \<open>
  A shallow embedding of the Solidity contract \<open>EncryptedOKRPlatformFHE\<close>. Contract
  storage is a record that every public function takes and returns; a revert is the left
  summand of the result, so that a reverted call carries no state and no event; events
  are the list returned beside the new storage. \<open>uint256\<close> values are natural numbers,
  with the overflow check of Solidity 0.8 written out where the code increments.
\<close>

subsection \<open>Value types\<close>

type_synonym address = "160 word"
type_synonym bytes32 = "256 word"
type_synonym uint32 = "32 word"
type_synonym bytes = "8 word list"

text \<open>
  The ciphertext type \<open>euint32\<close> and the library \<open>FHE\<close> are imported by the contract and
  are not part of it. The ciphertext type is the type parameter \<open>'c\<close>, and the library is a
  record of the operations the contract calls. \<open>FHE_null\<close> is the value a storage slot of
  type \<open>euint32\<close> holds before it is written (Solidity's zero value of the type).
\<close>

record 'c FHE =
  FHE_null :: 'c
  FHE_asEuint32 :: "uint32 \<Rightarrow> 'c"
  FHE_add :: "'c \<Rightarrow> 'c \<Rightarrow> 'c"
  FHE_isInitialized :: "'c \<Rightarrow> bool"
  FHE_toBytes32 :: "'c \<Rightarrow> bytes32"
  FHE_checkSignatures :: "nat \<Rightarrow> bytes \<Rightarrow> bytes \<Rightarrow> bool"

text \<open>The transaction context a function reads: \<open>msg.sender\<close> and \<open>block.timestamp\<close>.\<close>

record env =
  msg_sender :: address
  block_timestamp :: nat

subsection \<open>Storage\<close>

record 'c EncryptedOKR =
  id_okr :: nat
  owner :: address
  encryptedObjective :: 'c
  encryptedKeyResults :: 'c
  encryptedProgress :: 'c
  timestamp :: nat

record 'c EncryptedAggregate =
  idHash :: bytes32
  encryptedSum :: 'c
  lastUpdated :: nat

text \<open>
  A Solidity mapping is total: a key never written reads as the zero value. The mappings
  are total functions. \<open>counterRequest\<close> and \<open>requestedHandles\<close> are the storage of the
  library's decryption-request bookkeeping, which lives in the calling contract.
\<close>

record 'c state =
  okrCount :: nat
  encryptedOkrs :: "nat \<Rightarrow> 'c EncryptedOKR"
  teamAggregates :: "bytes32 \<Rightarrow> 'c EncryptedAggregate"
  teamMembers :: "bytes32 \<Rightarrow> address list"
  requestToOkrId :: "nat \<Rightarrow> nat"
  requestToTeamId :: "nat \<Rightarrow> bytes32"
  counterRequest :: nat
  requestedHandles :: "nat \<Rightarrow> bytes32 list"

datatype event =
  OKRSubmitted nat address nat
| TeamAggregated bytes32 nat
| DecryptionRequested nat
| AggregateDecrypted bytes32 uint32

text \<open>
  The ways a call reverts: the arithmetic panic of a checked increment, a failed
  \<open>require\<close> with its message, the library's rejection of a decryption proof, and a
  payload that \<open>abi.decode\<close> refuses.
\<close>

datatype revert =
  Panic_overflow
| Error string
| InvalidKMSSignatures
| Abi_decode_failed

type_synonym 'c result = "revert + ('c state \<times> event list)"

definition zero_okr :: "'c FHE \<Rightarrow> 'c EncryptedOKR" where
  "zero_okr cap = \<lparr>id_okr = 0, owner = 0, encryptedObjective = FHE_null cap,
     encryptedKeyResults = FHE_null cap, encryptedProgress = FHE_null cap, timestamp = 0\<rparr>"

definition zero_aggregate :: "'c FHE \<Rightarrow> 'c EncryptedAggregate" where
  "zero_aggregate cap = \<lparr>idHash = 0, encryptedSum = FHE_null cap, lastUpdated = 0\<rparr>"

text \<open>The storage of a freshly deployed contract: every slot is zero.\<close>

definition deployed :: "'c FHE \<Rightarrow> 'c state" where
  "deployed cap = \<lparr>okrCount = 0, encryptedOkrs = (\<lambda>_. zero_okr cap),
     teamAggregates = (\<lambda>_. zero_aggregate cap), teamMembers = (\<lambda>_. []),
     requestToOkrId = (\<lambda>_. 0), requestToTeamId = (\<lambda>_. 0),
     counterRequest = 0, requestedHandles = (\<lambda>_. [])\<rparr>"

subsection \<open>submitEncryptedOKR\<close>

text \<open>
  \<open>okrCount += 1\<close> is checked arithmetic on \<open>uint256\<close>: it panics when the counter is
  \<open>2^256 - 1\<close>. The function has no modifier.
\<close>

definition submitEncryptedOKR ::
  "'c FHE \<Rightarrow> env \<Rightarrow> 'c \<Rightarrow> 'c \<Rightarrow> 'c \<Rightarrow> bytes32 \<Rightarrow> 'c state \<Rightarrow> 'c result" where
  "submitEncryptedOKR cap e encObjective encKeyResults encProgress teamId s =
     (if okrCount s + 1 \<ge> 2 ^ 256 then Inl Panic_overflow
      else
        let newId = okrCount s + 1;
            rec = \<lparr>id_okr = newId, owner = msg_sender e,
                   encryptedObjective = encObjective,
                   encryptedKeyResults = encKeyResults,
                   encryptedProgress = encProgress,
                   timestamp = block_timestamp e\<rparr>
        in Inr (s\<lparr>okrCount := newId,
                  encryptedOkrs := (encryptedOkrs s)(newId := rec),
                  teamMembers := (teamMembers s)(teamId := teamMembers s teamId @ [msg_sender e])\<rparr>,
                [OKRSubmitted newId (msg_sender e) (block_timestamp e)]))"

subsection \<open>findLatestEncryptedProgress\<close>

text \<open>
  The loop \<open>for (i = okrCount; i >= 1; i--)\<close>: the argument is \<open>i\<close>. At \<open>i = 0\<close> the
  condition fails at once; at \<open>i = 1\<close> the body breaks after the comparison.
\<close>

fun scanLatest :: "'c FHE \<Rightarrow> 'c state \<Rightarrow> address \<Rightarrow> nat \<Rightarrow> 'c" where
  "scanLatest cap s a 0 = FHE_asEuint32 cap 0"
| "scanLatest cap s a (Suc n) =
     (if owner (encryptedOkrs s (Suc n)) = a then encryptedProgress (encryptedOkrs s (Suc n))
      else if Suc n = 1 then FHE_asEuint32 cap 0
      else scanLatest cap s a n)"

definition findLatestEncryptedProgress :: "'c FHE \<Rightarrow> 'c state \<Rightarrow> address \<Rightarrow> 'c" where
  "findLatestEncryptedProgress cap s a = scanLatest cap s a (okrCount s)"

subsection \<open>recomputeTeamAggregate\<close>

text \<open>
  The loop over \<open>members[0], ..., members[length - 1]\<close>, as a recursion over the list. It
  carries the accumulator and, beside it, the operand pairs of the calls of \<open>FHE.add\<close> it
  has made, in the order it made them.
\<close>

fun sumMembers ::
  "'c FHE \<Rightarrow> 'c state \<Rightarrow> address list \<Rightarrow> 'c \<times> ('c \<times> 'c) list \<Rightarrow> 'c \<times> ('c \<times> 'c) list" where
  "sumMembers cap s [] (acc, adds) = (acc, adds)"
| "sumMembers cap s (m # ms) (acc, adds) =
     (let memberProgress = findLatestEncryptedProgress cap s m
      in if FHE_isInitialized cap memberProgress
         then sumMembers cap s ms (FHE_add cap acc memberProgress, adds @ [(acc, memberProgress)])
         else sumMembers cap s ms (acc, adds))"

definition recomputeTeamAggregate :: "'c FHE \<Rightarrow> env \<Rightarrow> bytes32 \<Rightarrow> 'c state \<Rightarrow> 'c result" where
  "recomputeTeamAggregate cap e teamId s =
     (let acc = fst (sumMembers cap s (teamMembers s teamId) (FHE_asEuint32 cap 0, []))
      in Inr (s\<lparr>teamAggregates := (teamAggregates s)(teamId :=
                   \<lparr>idHash = teamId, encryptedSum = acc, lastUpdated = block_timestamp e\<rparr>)\<rparr>,
              [TeamAggregated teamId (block_timestamp e)]))"

text \<open>The calls of \<open>FHE.add\<close> that \<open>recomputeTeamAggregate\<close> makes on a storage.\<close>

definition recomputeAdds :: "'c FHE \<Rightarrow> bytes32 \<Rightarrow> 'c state \<Rightarrow> ('c \<times> 'c) list" where
  "recomputeAdds cap teamId s =
     snd (sumMembers cap s (teamMembers s teamId) (FHE_asEuint32 cap 0, []))"

subsection \<open>requestTeamAggregateDecryption\<close>

text \<open>The modifier \<open>onlyTeamMember\<close>: its body is the placeholder \<open>_;\<close> alone.\<close>

definition onlyTeamMember :: "env \<Rightarrow> bytes32 \<Rightarrow> 'c result \<Rightarrow> 'c result" where
  "onlyTeamMember e teamId body = body"

text \<open>
  Modelled from the spec: \<open>FHE.requestDecryption\<close>, of the imported library, "allocates a
  fresh requestId" and submits the payload to the oracle. The identifier is the library's
  counter, which the call then increments; the payload is kept under the identifier.
\<close>

definition FHE_requestDecryption :: "bytes32 list \<Rightarrow> 'c state \<Rightarrow> nat \<times> 'c state" where
  "FHE_requestDecryption ciphertexts s =
     (counterRequest s,
      s\<lparr>counterRequest := counterRequest s + 1,
        requestedHandles := (requestedHandles s)(counterRequest s := ciphertexts)\<rparr>)"

definition requestTeamAggregateDecryption :: "'c FHE \<Rightarrow> env \<Rightarrow> bytes32 \<Rightarrow> 'c state \<Rightarrow> 'c result" where
  "requestTeamAggregateDecryption cap e teamId s =
     onlyTeamMember e teamId
       (let agg = teamAggregates s teamId
        in if \<not> FHE_isInitialized cap (encryptedSum agg) then Inl (Error ''No aggregate'')
           else
             let ciphertexts = [FHE_toBytes32 cap (encryptedSum agg)];
                 (reqId, s1) = FHE_requestDecryption ciphertexts s
             in Inr (s1\<lparr>requestToTeamId := (requestToTeamId s1)(reqId := teamId)\<rparr>,
                     [DecryptionRequested reqId]))"

subsection \<open>decryptTeamAggregate\<close>

text \<open>
  \<open>abi.decode(cleartexts, (uint32))\<close>: the first 32 bytes are one big-endian word; the
  decoder reverts on a shorter payload and on a word that is not a \<open>uint32\<close>.
\<close>

definition be_nat :: "bytes \<Rightarrow> nat" where
  "be_nat bs = foldl (\<lambda>n b. n * 256 + unat b) 0 bs"

definition abi_decode_uint32 :: "bytes \<Rightarrow> uint32 option" where
  "abi_decode_uint32 cleartexts =
     (if length cleartexts < 32 then None
      else let v = be_nat (take 32 cleartexts)
           in if v < 2 ^ 32 then Some (of_nat v) else None)"

definition decryptTeamAggregate :: "'c FHE \<Rightarrow> env \<Rightarrow> nat \<Rightarrow> bytes \<Rightarrow> bytes \<Rightarrow> 'c state \<Rightarrow> 'c result" where
  "decryptTeamAggregate cap e requestId cleartexts proof s =
     (let teamId = requestToTeamId s requestId
      in if idHash (teamAggregates s teamId) = 0 then Inl (Error ''Invalid team'')
         else if \<not> FHE_checkSignatures cap requestId cleartexts proof then Inl InvalidKMSSignatures
         else case abi_decode_uint32 cleartexts of
                None \<Rightarrow> Inl Abi_decode_failed
              | Some clearValue \<Rightarrow> Inr (s, [AggregateDecrypted teamId clearValue]))"

subsection \<open>Transactions\<close>

text \<open>
  A transaction is a call of one public function by some sender at some time. A reverted
  transaction leaves the storage as it was and no event in the log.
\<close>

datatype 'c tx =
  Submit env 'c 'c 'c bytes32
| Recompute env bytes32
| RequestDecryption env bytes32
| Callback env nat bytes bytes

fun call :: "'c FHE \<Rightarrow> 'c tx \<Rightarrow> 'c state \<Rightarrow> 'c result" where
  "call cap (Submit e encObjective encKeyResults encProgress teamId) s =
     submitEncryptedOKR cap e encObjective encKeyResults encProgress teamId s"
| "call cap (Recompute e teamId) s = recomputeTeamAggregate cap e teamId s"
| "call cap (RequestDecryption e teamId) s = requestTeamAggregateDecryption cap e teamId s"
| "call cap (Callback e requestId cleartexts proof) s =
     decryptTeamAggregate cap e requestId cleartexts proof s"

definition transact :: "'c FHE \<Rightarrow> 'c state \<times> event list \<Rightarrow> 'c tx \<Rightarrow> 'c state \<times> event list" where
  "transact cap sl t =
     (case call cap t (fst sl) of
        Inl _ \<Rightarrow> sl
      | Inr (s', evs) \<Rightarrow> (s', snd sl @ evs))"

definition run_from :: "'c FHE \<Rightarrow> 'c state \<times> event list \<Rightarrow> 'c tx list \<Rightarrow> 'c state \<times> event list" where
  "run_from cap sl txs = foldl (transact cap) sl txs"

text \<open>The storage and the log after a history of transactions on a fresh contract.\<close>

definition run :: "'c FHE \<Rightarrow> 'c tx list \<Rightarrow> 'c state \<times> event list" where
  "run cap txs = run_from cap (deployed cap, []) txs"

subsection \<open>The ciphertext capability as the specification describes it\<close>

text \<open>
  A capability mirrors plaintexts under a decryption \<open>dec\<close> when the encryption of a
  constant decrypts to it, the sum of two ciphertexts decrypts to the sum of their
  plaintexts (in \<open>uint32\<close>, where addition wraps), and a ciphertext that is not initialized
  stands for zero.
\<close>

definition mirrors :: "'c FHE \<Rightarrow> ('c \<Rightarrow> uint32) \<Rightarrow> bool" where
  "mirrors cap dec \<longleftrightarrow>
     (\<forall>v. dec (FHE_asEuint32 cap v) = v) \<and>
     (\<forall>a b. dec (FHE_add cap a b) = dec a + dec b) \<and>
     (\<forall>c. \<not> FHE_isInitialized cap c \<longrightarrow> dec c = 0)"

text \<open>
  The zero value of the storage type is not initialized, and what the capability
  constructs is.
\<close>

definition initializes :: "'c FHE \<Rightarrow> bool" where
  "initializes cap \<longleftrightarrow>
     \<not> FHE_isInitialized cap (FHE_null cap) \<and>
     (\<forall>v. FHE_isInitialized cap (FHE_asEuint32 cap v)) \<and>
     (\<forall>a b. FHE_isInitialized cap (FHE_add cap a b))"

text \<open>
  Modelled from the spec: the "plaintext-mirroring fake" of the ciphertext capability. A
  ciphertext is its plaintext, or \<open>None\<close> for the handle that was never initialized;
  \<open>FHE.add\<close> reads an operand that is not initialized as zero; a decryption proof is
  valid when it is the one token the fake oracle signs with.
\<close>

definition plain :: "uint32 option \<Rightarrow> uint32" where
  "plain c = (case c of None \<Rightarrow> 0 | Some v \<Rightarrow> v)"

definition valid_proof :: bytes where
  "valid_proof = [1]"

definition mirror :: "uint32 option FHE" where
  "mirror = \<lparr>FHE_null = None, FHE_asEuint32 = Some,
     FHE_add = (\<lambda>a b. Some (plain a + plain b)),
     FHE_isInitialized = (\<lambda>c. c \<noteq> None),
     FHE_toBytes32 = (\<lambda>c. case c of None \<Rightarrow> 0 | Some v \<Rightarrow> 2 ^ 32 + ucast v),
     FHE_checkSignatures = (\<lambda>requestId cleartexts proof. proof = valid_proof)\<rparr>"

subsection \<open>The specification's view of a history\<close>

text \<open>
  Following the specification's words: \<open>Membership[T]\<close> has "one entry appended per
  submission" to \<open>T\<close>, in order; an owner's latest submitted progress is the progress of
  the last submission that owner made to any team, and zero for an owner with no record;
  the aggregate of a team is "the plaintext sum of each member's latest submitted
  progress", one summand per entry of the membership.
\<close>

fun submitter :: "'c tx \<Rightarrow> bytes32 \<Rightarrow> address list" where
  "submitter (Submit e encObjective encKeyResults encProgress teamId) T =
     (if teamId = T then [msg_sender e] else [])"
| "submitter _ T = []"

definition spec_Membership :: "'c tx list \<Rightarrow> bytes32 \<Rightarrow> address list" where
  "spec_Membership txs T = concat (map (\<lambda>t. submitter t T) txs)"

fun progressBy :: "'c tx \<Rightarrow> address \<Rightarrow> 'c list" where
  "progressBy (Submit e encObjective encKeyResults encProgress teamId) a =
     (if msg_sender e = a then [encProgress] else [])"
| "progressBy _ a = []"

definition submittedProgress :: "'c tx list \<Rightarrow> address \<Rightarrow> 'c list" where
  "submittedProgress txs a = concat (map (\<lambda>t. progressBy t a) txs)"

definition spec_latestProgress :: "('c \<Rightarrow> uint32) \<Rightarrow> 'c tx list \<Rightarrow> address \<Rightarrow> uint32" where
  "spec_latestProgress dec txs a =
     (if submittedProgress txs a = [] then 0 else dec (last (submittedProgress txs a)))"

definition spec_aggregate :: "('c \<Rightarrow> uint32) \<Rightarrow> 'c tx list \<Rightarrow> bytes32 \<Rightarrow> uint32" where
  "spec_aggregate dec txs T = sum_list (map (spec_latestProgress dec txs) (spec_Membership txs T))"

text \<open>The transactions of a history that are submissions, and recomputations of a team.\<close>

fun isSubmit :: "'c tx \<Rightarrow> bool" where
  "isSubmit (Submit e encObjective encKeyResults encProgress teamId) = True"
| "isSubmit _ = False"

fun isRecomputeOf :: "bytes32 \<Rightarrow> 'c tx \<Rightarrow> bool" where
  "isRecomputeOf T (Recompute e teamId) = (teamId = T)"
| "isRecomputeOf T _ = False"

text \<open>The record identifiers and the request identifiers that a log announces, in order.\<close>

fun submittedId :: "event \<Rightarrow> nat list" where
  "submittedId (OKRSubmitted i a ts) = [i]"
| "submittedId _ = []"

definition submittedIds :: "event list \<Rightarrow> nat list" where
  "submittedIds log = concat (map submittedId log)"

fun requestedId :: "event \<Rightarrow> nat list" where
  "requestedId (DecryptionRequested r) = [r]"
| "requestedId _ = []"

definition requestedIds :: "event list \<Rightarrow> nat list" where
  "requestedIds log = concat (map requestedId log)"

fun decryptedTeam :: "event \<Rightarrow> bytes32 list" where
  "decryptedTeam (AggregateDecrypted teamId clearValue) = [teamId]"
| "decryptedTeam _ = []"

definition decryptedTeams :: "event list \<Rightarrow> bytes32 list" where
  "decryptedTeams log = concat (map decryptedTeam log)"

text \<open>The identifiers of the stored records that an address owns, in increasing order.\<close>

definition ownedIds :: "'c state \<Rightarrow> address \<Rightarrow> nat list" where
  "ownedIds s a = filter (\<lambda>i. owner (encryptedOkrs s i) = a) [1..<Suc (okrCount s)]"

text \<open>
  The rule the modifier \<open>onlyTeamMember\<close> is named after, which the specification gives
  as an example of a host policy: "requester must be a recorded team member".
\<close>

definition isRecordedMember :: "'c state \<Rightarrow> address \<Rightarrow> bytes32 \<Rightarrow> bool" where
  "isRecordedMember s a T \<longleftrightarrow> a \<in> set (teamMembers s T)"

subsection \<open>Invariants of the storage and the log\<close>

text \<open>
  What holds of the storage and the log after every history: the log announces the record
  identifiers \<open>1, ..., okrCount\<close> and the request identifiers \<open>0, ..., counterRequest - 1\<close>
  in order; the record stored under an identifier carries it; the aggregate of the
  all-zero team has the \<open>idHash\<close> zero; a request identifier not yet allocated maps to
  the all-zero team; no decrypted aggregate of the all-zero team was announced.
\<close>

definition wellformed :: "'c state \<times> event list \<Rightarrow> bool" where
  "wellformed sl \<longleftrightarrow>
     submittedIds (snd sl) = [1..<Suc (okrCount (fst sl))] \<and>
     (\<forall>i. 1 \<le> i \<and> i \<le> okrCount (fst sl) \<longrightarrow> id_okr (encryptedOkrs (fst sl) i) = i) \<and>
     idHash (teamAggregates (fst sl) 0) = 0 \<and>
     (\<forall>r. counterRequest (fst sl) \<le> r \<longrightarrow> requestToTeamId (fst sl) r = 0) \<and>
     requestedIds (snd sl) = [0..<counterRequest (fst sl)] \<and>
     0 \<notin> set (decryptedTeams (snd sl))"

text \<open>
  How the storage follows a history: the counter is the number of submissions, the member
  list of a team is the specification's membership, and the scan for an owner's latest
  progress finds the progress of that owner's last submission.
\<close>

definition tracks :: "'c FHE \<Rightarrow> 'c tx list \<Rightarrow> 'c state \<Rightarrow> bool" where
  "tracks cap txs s \<longleftrightarrow>
     okrCount s = length (filter isSubmit txs) \<and>
     (\<forall>T. teamMembers s T = spec_Membership txs T) \<and>
     (\<forall>a. findLatestEncryptedProgress cap s a =
        (if submittedProgress txs a = [] then FHE_asEuint32 cap 0
         else last (submittedProgress txs a)))"

subsection \<open>Scenarios\<close>

text \<open>
  The participants, teams and histories of the specification's scenarios, on the
  plaintext-mirroring capability. \<open>cleartext100\<close> is the ABI encoding of the
  \<open>uint32\<close> value 100.
\<close>

definition sender :: "address \<Rightarrow> nat \<Rightarrow> env" where
  "sender a ts = \<lparr>msg_sender = a, block_timestamp = ts\<rparr>"

definition alice :: address where
  "alice = 1001"

definition bob :: address where
  "bob = 1002"

definition mallory :: address where
  "mallory = 666"

definition relayer :: address where
  "relayer = 2000"

definition team1 :: bytes32 where
  "team1 = 1"

definition team2 :: bytes32 where
  "team2 = 2"

definition cleartext100 :: bytes where
  "cleartext100 = replicate 31 0 @ [100]"

definition submit_40_60 :: "uint32 option tx list" where
  "submit_40_60 = [Submit (sender alice 1000) None None (Some 40) team1,
                   Submit (sender bob 1001) None None (Some 60) team1]"

definition computed_40_60 :: "uint32 option tx list" where
  "computed_40_60 = submit_40_60 @ [Recompute (sender bob 1002) team1]"

definition request_flow :: "uint32 option tx list" where
  "request_flow = computed_40_60 @ [RequestDecryption (sender bob 1003) team1]"

definition fulfilled_flow :: "uint32 option tx list" where
  "fulfilled_flow = request_flow @ [Callback (sender relayer 1004) 0 cleartext100 valid_proof]"

definition submit_20_80 :: "uint32 option tx list" where
  "submit_20_80 = [Submit (sender alice 1000) None None (Some 20) team1,
                   Submit (sender alice 1001) None None (Some 80) team1]"

definition submit_20_80_elsewhere :: "uint32 option tx list" where
  "submit_20_80_elsewhere = [Submit (sender alice 1000) None None (Some 20) team1,
                             Submit (sender alice 1001) None None (Some 80) team2]"

definition submit_initialized :: "uint32 option tx list" where
  "submit_initialized = [Submit (sender alice 1000) None None (Some 5) team1]"

definition submit_uninitialized :: "uint32 option tx list" where
  "submit_uninitialized = [Submit (sender alice 1000) None None None team1]"

definition submit_zero_team :: "uint32 option tx list" where
  "submit_zero_team = [Submit (sender alice 1000) None None (Some 40) 0]"

text \<open>
  Transactions that are not submissions, as they may stand between two recomputations,
  and a continuation of the decryption flow after its first callback.
\<close>

definition interlude :: "uint32 option tx list" where
  "interlude = [RequestDecryption (sender bob 1003) team1,
                Callback (sender relayer 1004) 0 cleartext100 valid_proof,
                Recompute (sender bob 1005) team2]"

definition aftermath :: "uint32 option tx list" where
  "aftermath = [Callback (sender relayer 1004) 0 cleartext100 valid_proof,
                Submit (sender alice 1005) None None (Some 80) team1,
                Recompute (sender bob 1006) team1]"

section \<open>Auxiliary lemmas\<close>

subsection \<open>The plaintext-mirroring capability\<close>

lemma mirror_mirrors: "mirrors mirror plain"
  by (simp add: mirrors_def mirror_def plain_def)

lemma mirror_initializes: "initializes mirror"
  by (simp add: initializes_def mirror_def)

subsection \<open>The scan and the summation loop\<close>

text \<open>Both read the counter and the records only, and only the records up to the counter.\<close>

lemma scanLatest_agree:
  "(\<And>i. 1 \<le> i \<Longrightarrow> i \<le> n \<Longrightarrow> encryptedOkrs s i = encryptedOkrs s' i) \<Longrightarrow>
   scanLatest cap s a n = scanLatest cap s' a n"
  by (induction n) auto

lemma findLatest_agree:
  "okrCount s = okrCount s' \<Longrightarrow> encryptedOkrs s = encryptedOkrs s' \<Longrightarrow>
   findLatestEncryptedProgress cap s a = findLatestEncryptedProgress cap s' a"
  unfolding findLatestEncryptedProgress_def by (simp add: scanLatest_agree [of _ s s'])

lemma sumMembers_agree:
  "okrCount s = okrCount s' \<Longrightarrow> encryptedOkrs s = encryptedOkrs s' \<Longrightarrow>
   sumMembers cap s ms p = sumMembers cap s' ms p"
proof (induction ms arbitrary: p)
  case Nil
  then show ?case by (cases p) simp
next
  case (Cons m ms)
  from Cons.prems have "findLatestEncryptedProgress cap s m = findLatestEncryptedProgress cap s' m"
    by (rule findLatest_agree)
  then show ?case by (cases p) (simp add: Cons.IH [OF Cons.prems] Let_def)
qed

lemma sumMembers_dec:
  assumes "mirrors cap dec"
  shows "dec (fst (sumMembers cap s ms (acc, adds))) =
     dec acc + sum_list (map (\<lambda>m. dec (findLatestEncryptedProgress cap s m)) ms)"
proof (induction ms arbitrary: acc adds)
  case Nil
  show ?case by simp
next
  case (Cons m ms)
  from assms have add: "dec (FHE_add cap a b) = dec a + dec b" for a b
    by (simp add: mirrors_def)
  from assms have z: "\<not> FHE_isInitialized cap c \<Longrightarrow> dec c = 0" for c
    by (simp add: mirrors_def)
  show ?case
  proof (cases "FHE_isInitialized cap (findLatestEncryptedProgress cap s m)")
    case True
    then show ?thesis by (simp add: Cons.IH add Let_def)
  next
    case False
    then show ?thesis by (simp add: Cons.IH z)
  qed
qed

lemma sumMembers_adds:
  "map snd (snd (sumMembers cap s ms (acc, adds))) =
     map snd adds @ filter (FHE_isInitialized cap) (map (findLatestEncryptedProgress cap s) ms)"
proof (induction ms arbitrary: acc adds)
  case Nil
  show ?case by simp
next
  case (Cons m ms)
  show ?case
    by (cases "FHE_isInitialized cap (findLatestEncryptedProgress cap s m)") (simp_all add: Cons.IH Let_def)
qed

lemma sumMembers_initialized:
  "initializes cap \<Longrightarrow> FHE_isInitialized cap acc \<Longrightarrow>
   FHE_isInitialized cap (fst (sumMembers cap s ms (acc, adds)))"
  by (induction ms arbitrary: acc adds) (simp_all add: Let_def initializes_def)

lemma scanLatest_greatest:
  "scanLatest cap s a n =
     (if filter (\<lambda>i. owner (encryptedOkrs s i) = a) [1..<Suc n] = [] then FHE_asEuint32 cap 0
      else encryptedProgress (encryptedOkrs s
             (Max (set (filter (\<lambda>i. owner (encryptedOkrs s i) = a) [1..<Suc n])))))"
proof (induction n)
  case 0
  show ?case by simp
next
  case (Suc n)
  let ?ids = "filter (\<lambda>i. owner (encryptedOkrs s i) = a) [1..<Suc n]"
  have split: "[1..<Suc (Suc n)] = [1..<Suc n] @ [Suc n]" by simp
  show ?case
  proof (cases "owner (encryptedOkrs s (Suc n)) = a")
    case True
    have "Max (set (?ids @ [Suc n])) = Suc n"
      by (rule Max_eqI) auto
    with True show ?thesis by (simp only: split filter_append scanLatest.simps) simp
  next
    case False
    then have same: "filter (\<lambda>i. owner (encryptedOkrs s i) = a) [1..<Suc (Suc n)] = ?ids"
      by (simp only: split filter_append) simp
    show ?thesis
    proof (cases n)
      case 0
      with False show ?thesis by simp
    next
      case (Suc k)
      with False Suc.IH show ?thesis by (simp only: same scanLatest.simps) simp
    qed
  qed
qed

lemma length_filter_full: "length (filter P xs) = length xs \<longleftrightarrow> (\<forall>x \<in> set xs. P x)"
proof (induction xs)
  case Nil
  show ?case by simp
next
  case (Cons x xs)
  have le: "length (filter P xs) \<le> length xs" by (rule length_filter_le)
  show ?case
  proof (cases "P x")
    case True
    with Cons show ?thesis by simp
  next
    case False
    from le have "length (filter P xs) \<noteq> Suc (length xs)" by linarith
    with False show ?thesis by simp
  qed
qed

subsection \<open>One transaction\<close>

lemma transact_Submit:
  "transact cap (s, log) (Submit e ob kr p T) =
     (if okrCount s + 1 \<ge> 2 ^ 256 then (s, log)
      else (s\<lparr>okrCount := okrCount s + 1,
              encryptedOkrs := (encryptedOkrs s)(okrCount s + 1 :=
                \<lparr>id_okr = okrCount s + 1, owner = msg_sender e, encryptedObjective = ob,
                 encryptedKeyResults = kr, encryptedProgress = p, timestamp = block_timestamp e\<rparr>),
              teamMembers := (teamMembers s)(T := teamMembers s T @ [msg_sender e])\<rparr>,
            log @ [OKRSubmitted (okrCount s + 1) (msg_sender e) (block_timestamp e)]))"
  by (simp add: transact_def submitEncryptedOKR_def Let_def)

lemma transact_Recompute:
  "transact cap (s, log) (Recompute e T) =
     (s\<lparr>teamAggregates := (teamAggregates s)(T :=
          \<lparr>idHash = T,
           encryptedSum = fst (sumMembers cap s (teamMembers s T) (FHE_asEuint32 cap 0, [])),
           lastUpdated = block_timestamp e\<rparr>)\<rparr>,
      log @ [TeamAggregated T (block_timestamp e)])"
  by (simp add: transact_def recomputeTeamAggregate_def Let_def)

lemma transact_Request:
  "transact cap (s, log) (RequestDecryption e T) =
     (if \<not> FHE_isInitialized cap (encryptedSum (teamAggregates s T)) then (s, log)
      else (s\<lparr>counterRequest := counterRequest s + 1,
              requestedHandles := (requestedHandles s)(counterRequest s :=
                [FHE_toBytes32 cap (encryptedSum (teamAggregates s T))]),
              requestToTeamId := (requestToTeamId s)(counterRequest s := T)\<rparr>,
            log @ [DecryptionRequested (counterRequest s)]))"
  by (simp add: transact_def requestTeamAggregateDecryption_def onlyTeamMember_def
      FHE_requestDecryption_def Let_def)

lemma decrypt_cases:
  "decryptTeamAggregate cap e r ct pf s =
     (if idHash (teamAggregates s (requestToTeamId s r)) = 0 then Inl (Error ''Invalid team'')
      else if \<not> FHE_checkSignatures cap r ct pf then Inl InvalidKMSSignatures
      else case abi_decode_uint32 ct of
             None \<Rightarrow> Inl Abi_decode_failed
           | Some v \<Rightarrow> Inr (s, [AggregateDecrypted (requestToTeamId s r) v]))"
  by (simp add: decryptTeamAggregate_def Let_def)

lemma transact_Callback:
  "transact cap (s, log) (Callback e r ct pf) =
     (s, if idHash (teamAggregates s (requestToTeamId s r)) = 0 then log
         else if \<not> FHE_checkSignatures cap r ct pf then log
         else case abi_decode_uint32 ct of
                None \<Rightarrow> log
              | Some v \<Rightarrow> log @ [AggregateDecrypted (requestToTeamId s r) v])"
  by (simp add: transact_def decrypt_cases split: option.splits)

lemma run_from_Nil: "run_from cap sl [] = sl"
  by (simp add: run_from_def)

lemma run_from_snoc: "run_from cap sl (txs @ [t]) = transact cap (run_from cap sl txs) t"
  by (simp add: run_from_def)

lemma run_from_append: "run_from cap sl (txs @ txs') = run_from cap (run_from cap sl txs) txs'"
  by (simp add: run_from_def)

lemma run_snoc: "run cap (txs @ [t]) = transact cap (run cap txs) t"
  by (simp add: run_def run_from_snoc)

lemma run_append: "run cap (txs @ txs') = run_from cap (run cap txs) txs'"
  by (simp add: run_def run_from_append)

lemma run_from_invariant:
  assumes "P sl" and "\<And>s log t. P (s, log) \<Longrightarrow> P (transact cap (s, log) t)"
  shows "P (run_from cap sl txs)"
proof (induction txs rule: rev_induct)
  case Nil
  show ?case by (simp add: run_from_Nil assms(1))
next
  case (snoc t txs)
  obtain s log where sl: "run_from cap sl txs = (s, log)" by (cases "run_from cap sl txs")
  with snoc show ?case by (simp add: run_from_snoc assms(2))
qed

lemma recompute_run:
  "recomputeTeamAggregate cap e T (fst (run cap txs)) =
     Inr (fst (run cap (txs @ [Recompute e T])), [TeamAggregated T (block_timestamp e)])"
  by (simp add: run_snoc transact_def recomputeTeamAggregate_def Let_def)

subsection \<open>Invariants\<close>

lemma wellformed_deployed: "wellformed (deployed cap, [])"
  by (simp add: wellformed_def deployed_def submittedIds_def requestedIds_def
      decryptedTeams_def zero_aggregate_def)

lemma wellformed_transact:
  assumes "wellformed (s, log)"
  shows "wellformed (transact cap (s, log) t)"
proof (cases t)
  case (Submit e ob kr p T)
  with assms show ?thesis
    by (auto simp: wellformed_def transact_Submit submittedIds_def requestedIds_def
        decryptedTeams_def)
next
  case (Recompute e T)
  with assms show ?thesis
    by (auto simp: wellformed_def transact_Recompute submittedIds_def requestedIds_def
        decryptedTeams_def)
next
  case (RequestDecryption e T)
  with assms show ?thesis
    by (auto simp: wellformed_def transact_Request submittedIds_def requestedIds_def
        decryptedTeams_def)
next
  case (Callback e r ct pf)
  with assms show ?thesis
    by (auto simp: wellformed_def transact_Callback submittedIds_def requestedIds_def
        decryptedTeams_def split: option.splits)
qed

lemma wellformed_run_from: "wellformed sl \<Longrightarrow> wellformed (run_from cap sl txs)"
  by (rule run_from_invariant) (simp_all add: wellformed_transact)

lemma wellformed_run: "wellformed (run cap txs)"
  by (simp add: run_def wellformed_run_from wellformed_deployed)

lemma findLatest_submit:
  "findLatestEncryptedProgress cap
     (s\<lparr>okrCount := okrCount s + 1,
        encryptedOkrs := (encryptedOkrs s)(okrCount s + 1 := r),
        teamMembers := tm\<rparr>) a =
     (if owner r = a then encryptedProgress r else findLatestEncryptedProgress cap s a)"
proof -
  let ?s' = "s\<lparr>okrCount := okrCount s + 1,
        encryptedOkrs := (encryptedOkrs s)(okrCount s + 1 := r), teamMembers := tm\<rparr>"
  have "scanLatest cap ?s' a (okrCount s) = scanLatest cap s a (okrCount s)"
    by (rule scanLatest_agree) simp
  then show ?thesis
    by (cases "okrCount s") (simp_all add: findLatestEncryptedProgress_def)
qed

lemma tracks_deployed: "tracks cap [] (deployed cap)"
  by (simp add: tracks_def deployed_def spec_Membership_def submittedProgress_def
      findLatestEncryptedProgress_def)

lemma spec_Membership_snoc:
  "spec_Membership (txs @ [t]) T = spec_Membership txs T @ submitter t T"
  by (simp add: spec_Membership_def)

lemma submittedProgress_snoc:
  "submittedProgress (txs @ [t]) a = submittedProgress txs a @ progressBy t a"
  by (simp add: submittedProgress_def)

lemma tracks_transact:
  assumes "tracks cap txs s" and "okrCount s + 1 < 2 ^ 256"
  shows "tracks cap (txs @ [t]) (fst (transact cap (s, log) t))"
proof (cases t)
  case (Submit e ob kr p T)
  define r where "r = \<lparr>id_okr = okrCount s + 1, owner = msg_sender e, encryptedObjective = ob,
     encryptedKeyResults = kr, encryptedProgress = p, timestamp = block_timestamp e\<rparr>"
  define tm where "tm = (teamMembers s)(T := teamMembers s T @ [msg_sender e])"
  define s' where "s' = s\<lparr>okrCount := okrCount s + 1,
     encryptedOkrs := (encryptedOkrs s)(okrCount s + 1 := r), teamMembers := tm\<rparr>"
  from assms(2) have step: "fst (transact cap (s, log) t) = s'"
    by (simp add: Submit transact_Submit s'_def r_def tm_def)
  have latest: "findLatestEncryptedProgress cap s' a =
      (if msg_sender e = a then p else findLatestEncryptedProgress cap s a)" for a
    unfolding s'_def findLatest_submit by (simp add: r_def)
  have count: "okrCount s' = length (filter isSubmit (txs @ [t]))"
    using assms(1) by (simp add: s'_def Submit tracks_def)
  have members: "teamMembers s' T' = spec_Membership (txs @ [t]) T'" for T'
    using assms(1) by (simp add: s'_def tm_def Submit tracks_def spec_Membership_snoc)
  have progress: "findLatestEncryptedProgress cap s' a =
      (if submittedProgress (txs @ [t]) a = [] then FHE_asEuint32 cap 0
       else last (submittedProgress (txs @ [t]) a))" for a
    using assms(1) by (simp add: latest Submit tracks_def submittedProgress_snoc)
  show ?thesis
    unfolding tracks_def step using count members progress by blast
next
  case (Recompute e T)
  have "findLatestEncryptedProgress cap (fst (transact cap (s, log) (Recompute e T))) a =
        findLatestEncryptedProgress cap s a" for a
    by (rule findLatest_agree) (simp_all add: transact_Recompute)
  with assms Recompute show ?thesis
    by (simp add: tracks_def spec_Membership_snoc submittedProgress_snoc)
       (simp add: transact_Recompute)
next
  case (RequestDecryption e T)
  have "findLatestEncryptedProgress cap (fst (transact cap (s, log) (RequestDecryption e T))) a =
        findLatestEncryptedProgress cap s a" for a
    by (rule findLatest_agree) (simp_all add: transact_Request)
  with assms RequestDecryption show ?thesis
    by (simp add: tracks_def spec_Membership_snoc submittedProgress_snoc)
       (simp add: transact_Request)
next
  case (Callback e r ct pf)
  with assms show ?thesis
    by (simp add: tracks_def transact_Callback spec_Membership_snoc submittedProgress_snoc)
qed

lemma tracks_run: "length txs < 2 ^ 256 \<Longrightarrow> tracks cap txs (fst (run cap txs))"
proof (induction txs rule: rev_induct)
  case Nil
  show ?case by (simp add: run_def run_from_Nil tracks_deployed)
next
  case (snoc t txs)
  obtain s log where sl: "run cap txs = (s, log)" by (cases "run cap txs")
  from snoc have tr: "tracks cap txs s" by (simp add: sl)
  then have "okrCount s \<le> length txs" by (simp add: tracks_def)
  with snoc.prems have "okrCount s + 1 < 2 ^ 256" by simp
  with tr show ?case by (simp add: run_snoc sl tracks_transact)
qed

lemma dec_latest:
  assumes "mirrors cap dec" and "tracks cap txs s"
  shows "dec (findLatestEncryptedProgress cap s a) = spec_latestProgress dec txs a"
  using assms by (simp add: tracks_def spec_latestProgress_def mirrors_def)

lemma records_kept_transact:
  "okrCount s \<le> okrCount (fst (transact cap (s, log) t)) \<and>
   (\<forall>i. 1 \<le> i \<and> i \<le> okrCount s \<longrightarrow>
      encryptedOkrs (fst (transact cap (s, log) t)) i = encryptedOkrs s i)"
proof (cases t)
  case (Submit e ob kr p T)
  then show ?thesis by (simp add: transact_Submit)
next
  case (Recompute e T)
  then show ?thesis by (simp add: transact_Recompute)
next
  case (RequestDecryption e T)
  then show ?thesis by (simp add: transact_Request)
next
  case (Callback e r ct pf)
  then show ?thesis by (simp add: transact_Callback)
qed

lemma records_kept_run_from:
  "okrCount s \<le> okrCount (fst (run_from cap (s, log) txs)) \<and>
   (\<forall>i. 1 \<le> i \<and> i \<le> okrCount s \<longrightarrow>
      encryptedOkrs (fst (run_from cap (s, log) txs)) i = encryptedOkrs s i)"
proof (induction txs rule: rev_induct)
  case Nil
  show ?case by (simp add: run_from_Nil)
next
  case (snoc t txs)
  obtain s' log' where sl: "run_from cap (s, log) txs = (s', log')"
    by (cases "run_from cap (s, log) txs")
  from records_kept_transact [of s' cap log' t] snoc show ?case
    by (simp add: run_from_snoc sl)
qed

lemma aggregate_status_transact:
  "encryptedSum (teamAggregates (fst (transact cap (s, log) t)) T) =
     (if isRecomputeOf T t
      then fst (sumMembers cap s (teamMembers s T) (FHE_asEuint32 cap 0, []))
      else encryptedSum (teamAggregates s T))"
proof (cases t)
  case (Submit e ob kr p T')
  then show ?thesis by (simp add: transact_Submit)
next
  case (Recompute e T')
  then show ?thesis by (simp add: transact_Recompute)
next
  case (RequestDecryption e T')
  then show ?thesis by (simp add: transact_Request)
next
  case (Callback e r ct pf)
  then show ?thesis by (simp add: transact_Callback)
qed

lemma aggregate_status:
  "(\<not> (\<exists>t \<in> set txs. isRecomputeOf T t) \<longrightarrow>
      encryptedSum (teamAggregates (fst (run cap txs)) T) = FHE_null cap) \<and>
   (initializes cap \<and> (\<exists>t \<in> set txs. isRecomputeOf T t) \<longrightarrow>
      FHE_isInitialized cap (encryptedSum (teamAggregates (fst (run cap txs)) T)))"
proof (induction txs rule: rev_induct)
  case Nil
  show ?case by (simp add: run_def run_from_Nil deployed_def zero_aggregate_def)
next
  case (snoc t txs)
  obtain s log where sl: "run cap txs = (s, log)" by (cases "run cap txs")
  have init: "initializes cap \<Longrightarrow>
      FHE_isInitialized cap (fst (sumMembers cap s (teamMembers s T) (FHE_asEuint32 cap 0, [])))"
    by (rule sumMembers_initialized) (simp_all add: initializes_def)
  from snoc init show ?case
    by (auto simp: run_snoc sl aggregate_status_transact)
qed

lemma requests_kept_transact:
  "counterRequest s \<le> counterRequest (fst (transact cap (s, log) t)) \<and>
   (\<forall>r. r < counterRequest s \<longrightarrow>
      requestToTeamId (fst (transact cap (s, log) t)) r = requestToTeamId s r)"
proof (cases t)
  case (Submit e ob kr p T)
  then show ?thesis by (simp add: transact_Submit)
next
  case (Recompute e T)
  then show ?thesis by (simp add: transact_Recompute)
next
  case (RequestDecryption e T)
  then show ?thesis by (simp add: transact_Request)
next
  case (Callback e r ct pf)
  then show ?thesis by (simp add: transact_Callback)
qed

lemma requests_kept_run_from:
  "counterRequest s \<le> counterRequest (fst (run_from cap (s, log) txs)) \<and>
   (\<forall>r. r < counterRequest s \<longrightarrow>
      requestToTeamId (fst (run_from cap (s, log) txs)) r = requestToTeamId s r)"
proof (induction txs rule: rev_induct)
  case Nil
  show ?case by (simp add: run_from_Nil)
next
  case (snoc t txs)
  obtain s' log' where sl: "run_from cap (s, log) txs = (s', log')"
    by (cases "run_from cap (s, log) txs")
  from requests_kept_transact [of s' cap log' t] snoc show ?case
    by (simp add: run_from_snoc sl)
qed

text \<open>
  A transaction that is not a submission leaves the counter, the records and the member
  lists as they are.
\<close>

lemma frame_transact:
  assumes "\<not> isSubmit t"
  shows "okrCount (fst (transact cap (s, log) t)) = okrCount s \<and>
         encryptedOkrs (fst (transact cap (s, log) t)) = encryptedOkrs s \<and>
         teamMembers (fst (transact cap (s, log) t)) = teamMembers s"
proof (cases t)
  case (Submit e ob kr p T)
  with assms show ?thesis by simp
next
  case (Recompute e T)
  then show ?thesis by (simp add: transact_Recompute)
next
  case (RequestDecryption e T)
  then show ?thesis by (simp add: transact_Request)
next
  case (Callback e r ct pf)
  then show ?thesis by (simp add: transact_Callback)
qed

lemma frame_run_from:
  assumes "list_all (\<lambda>t. \<not> isSubmit t) txs"
  shows "okrCount (fst (run_from cap (s, log) txs)) = okrCount s \<and>
         encryptedOkrs (fst (run_from cap (s, log) txs)) = encryptedOkrs s \<and>
         teamMembers (fst (run_from cap (s, log) txs)) = teamMembers s"
  using assms
proof (induction txs rule: rev_induct)
  case Nil
  show ?case by (simp add: run_from_Nil)
next
  case (snoc t txs)
  obtain s' log' where sl: "run_from cap (s, log) txs = (s', log')"
    by (cases "run_from cap (s, log) txs")
  from snoc.prems have t: "\<not> isSubmit t" and rest: "list_all (\<lambda>t. \<not> isSubmit t) txs"
    by simp_all
  from frame_transact [OF t, of cap s' log'] snoc.IH [OF rest] show ?case
    by (simp add: run_from_snoc sl)
qed

text \<open>After any history, an aggregate whose \<open>idHash\<close> is not zero keeps it so.\<close>

lemma idHash_kept_transact:
  assumes "wellformed (s, log)" and "idHash (teamAggregates s T) \<noteq> 0"
  shows "idHash (teamAggregates (fst (transact cap (s, log) t)) T) \<noteq> 0"
proof (cases t)
  case (Submit e ob kr p T')
  with assms show ?thesis by (simp add: transact_Submit)
next
  case (Recompute e T')
  from assms have "T \<noteq> 0" by (auto simp: wellformed_def)
  with assms Recompute show ?thesis by (auto simp: transact_Recompute)
next
  case (RequestDecryption e T')
  with assms show ?thesis by (simp add: transact_Request)
next
  case (Callback e r ct pf)
  with assms show ?thesis by (simp add: transact_Callback)
qed

lemma idHash_kept_run_from:
  assumes "wellformed (s, log)" and "idHash (teamAggregates s T) \<noteq> 0"
  shows "idHash (teamAggregates (fst (run_from cap (s, log) txs)) T) \<noteq> 0"
proof -
  have "wellformed (run_from cap (s, log) txs) \<and>
        idHash (teamAggregates (fst (run_from cap (s, log) txs)) T) \<noteq> 0"
  proof (induction txs rule: rev_induct)
    case Nil
    show ?case by (simp add: run_from_Nil assms)
  next
    case (snoc t txs)
    obtain s' log' where sl: "run_from cap (s, log) txs = (s', log')"
      by (cases "run_from cap (s, log) txs")
    from snoc have wf: "wellformed (s', log')" and h: "idHash (teamAggregates s' T) \<noteq> 0"
      by (simp_all add: sl)
    from wellformed_transact [OF wf, of cap t] idHash_kept_transact [OF wf h, of cap t]
    show ?case by (simp add: run_from_snoc sl)
  qed
  then show ?thesis by simp
qed

subsection \<open>Evaluating the scenarios\<close>

lemmas exec_simps = run_def run_from_def transact_def submitEncryptedOKR_def
  recomputeTeamAggregate_def requestTeamAggregateDecryption_def decryptTeamAggregate_def
  onlyTeamMember_def FHE_requestDecryption_def deployed_def zero_okr_def zero_aggregate_def
  findLatestEncryptedProgress_def recomputeAdds_def mirror_def plain_def sender_def Let_def

lemmas names = alice_def bob_def mallory_def relayer_def team1_def team2_def cleartext100_def
  submit_40_60_def computed_40_60_def request_flow_def fulfilled_flow_def submit_20_80_def
  submit_20_80_elsewhere_def submit_initialized_def submit_uninitialized_def
  submit_zero_team_def interlude_def aftermath_def valid_proof_def

lemma be_nat_zeros: "be_nat (replicate k 0 @ bs) = be_nat bs"
  by (induction k) (simp_all add: be_nat_def)

lemma cleartext100_decodes: "abi_decode_uint32 cleartext100 = Some 100"
  by (simp add: abi_decode_uint32_def cleartext100_def be_nat_zeros) (simp add: be_nat_def)

lemma request_flow_state:
  "requestToTeamId (fst (run mirror request_flow)) 0 = team1"
  "idHash (teamAggregates (fst (run mirror request_flow)) team1) = team1"
  by (simp_all add: exec_simps names)

section \<open>The claims\<close>

subsection \<open>C1: aggregation correctness\<close>

text \<open>
  Claim C1. After any history of fewer than \<open>2^256\<close> transactions on a fresh contract,
  under any capability that mirrors plaintexts, the \<open>encryptedSum\<close> that
  \<open>recomputeTeamAggregate\<close> stores for a team decrypts to the sum, over the entries of
  the team's membership in order and with repetitions, of the latest progress each entry's
  owner submitted (zero for an owner with no record). The sum is the capability's: in
  \<open>uint32\<close>, where addition wraps.
\<close>

theorem aggregation_correct:
  assumes "mirrors cap dec" and "length txs < 2 ^ 256"
  shows "dec (encryptedSum (teamAggregates (fst (run cap (txs @ [Recompute e T]))) T)) =
         spec_aggregate dec txs T"
proof -
  obtain s log where sl: "run cap txs = (s, log)" by (cases "run cap txs")
  from assms(2) have tr: "tracks cap txs s" using tracks_run [of txs cap] by (simp add: sl)
  have zero: "dec (FHE_asEuint32 cap 0) = 0" using assms(1) by (simp add: mirrors_def)
  have "dec (encryptedSum (teamAggregates (fst (run cap (txs @ [Recompute e T]))) T)) =
        dec (fst (sumMembers cap s (teamMembers s T) (FHE_asEuint32 cap 0, [])))"
    by (simp add: run_snoc sl transact_Recompute)
  also have "\<dots> = sum_list (map (\<lambda>m. dec (findLatestEncryptedProgress cap s m)) (teamMembers s T))"
    by (simp add: sumMembers_dec [OF assms(1)] zero)
  also have "\<dots> = sum_list (map (spec_latestProgress dec txs) (spec_Membership txs T))"
    using tr by (simp add: dec_latest [OF assms(1) tr]) (simp add: tracks_def)
  finally show ?thesis by (simp add: spec_aggregate_def)
qed

text \<open>
  The scenario of the specification on the plaintext-mirroring capability: submissions of
  40 and 60 to one team aggregate to 100.
\<close>

theorem aggregation_correct_witness:
  "mirrors mirror plain \<and> length submit_40_60 < 2 ^ 256 \<and>
   plain (encryptedSum (teamAggregates (fst (run mirror
     (submit_40_60 @ [Recompute (sender bob 1002) team1]))) team1)) =
     spec_aggregate plain submit_40_60 team1 \<and>
   spec_aggregate plain submit_40_60 team1 = 100"
proof -
  note m = mirror_mirrors
  have l: "length submit_40_60 < 2 ^ 256"
    by (simp add: submit_40_60_def)
  have v: "spec_aggregate plain submit_40_60 team1 = 100"
    by (simp add: names spec_aggregate_def spec_Membership_def spec_latestProgress_def
        submittedProgress_def sender_def plain_def)
  from aggregation_correct [OF m l] m l v show ?thesis by blast
qed

subsection \<open>C2: the calls of the homomorphic addition\<close>

text \<open>
  Claim C2, as the code has it. \<open>recomputeTeamAggregate\<close> calls \<open>FHE.add\<close>, in list
  order, for exactly those entries of the member list whose resolved ciphertext is
  initialized: the second operands of the calls are the initialized resolved ciphertexts.
  An entry whose ciphertext is not initialized is skipped by the branch on
  \<open>FHE.isInitialized\<close>; no zero is added for it. So there are at most as many calls as
  entries, and as many exactly when every resolved ciphertext is initialized.
\<close>

theorem adds_only_for_initialized:
  "map snd (recomputeAdds cap T s) =
     filter (FHE_isInitialized cap) (map (findLatestEncryptedProgress cap s) (teamMembers s T)) \<and>
   length (recomputeAdds cap T s) \<le> length (teamMembers s T) \<and>
   (length (recomputeAdds cap T s) = length (teamMembers s T) \<longleftrightarrow>
      (\<forall>m \<in> set (teamMembers s T). FHE_isInitialized cap (findLatestEncryptedProgress cap s m)))"
proof -
  let ?cs = "map (findLatestEncryptedProgress cap s) (teamMembers s T)"
  have a: "map snd (recomputeAdds cap T s) = filter (FHE_isInitialized cap) ?cs"
    by (simp add: recomputeAdds_def sumMembers_adds)
  then have len: "length (recomputeAdds cap T s) = length (filter (FHE_isInitialized cap) ?cs)"
    by (metis length_map)
  have b: "length (recomputeAdds cap T s) \<le> length (teamMembers s T)"
    using length_filter_le [of "FHE_isInitialized cap" ?cs] by (simp add: len)
  have "length (filter (FHE_isInitialized cap) ?cs) = length ?cs \<longleftrightarrow>
        (\<forall>c \<in> set ?cs. FHE_isInitialized cap c)"
    by (rule length_filter_full)
  then have c: "length (recomputeAdds cap T s) = length (teamMembers s T) \<longleftrightarrow>
      (\<forall>m \<in> set (teamMembers s T). FHE_isInitialized cap (findLatestEncryptedProgress cap s m))"
    by (simp add: len)
  from a b c show ?thesis by blast
qed

text \<open>
  On the submissions of 40 and 60 every resolved ciphertext is initialized, and there is
  one addition per entry.
\<close>

theorem adds_only_for_initialized_witness:
  "list_all (\<lambda>m. FHE_isInitialized mirror
       (findLatestEncryptedProgress mirror (fst (run mirror submit_40_60)) m))
     (teamMembers (fst (run mirror submit_40_60)) team1) \<and>
   length (recomputeAdds mirror team1 (fst (run mirror submit_40_60))) =
     length (teamMembers (fst (run mirror submit_40_60)) team1) \<and>
   map snd (recomputeAdds mirror team1 (fst (run mirror submit_40_60))) = [Some 40, Some 60]"
proof -
  let ?s = "fst (run mirror submit_40_60)"
  have members: "teamMembers ?s team1 = [alice, bob]"
    by (simp add: exec_simps names)
  have latest: "findLatestEncryptedProgress mirror ?s alice = Some 40"
      "findLatestEncryptedProgress mirror ?s bob = Some 60"
    by (simp_all add: exec_simps names)
  have init: "FHE_isInitialized mirror (Some v)" for v :: uint32
    by (simp add: mirror_def)
  from adds_only_for_initialized [of mirror team1 ?s] show ?thesis
    by (simp add: members latest init)
qed

text \<open>
  The claim as the specification states it fails: two histories give member lists of the
  same length, one entry each; a submission whose progress is the uninitialized handle (a
  caller can pass it: \<open>euint32\<close> is a 32-byte value) leads to no addition at all, a
  submission with an initialized progress to one.
\<close>

theorem adds_vary_with_initialization:
  "teamMembers (fst (run mirror submit_initialized)) team1 = [alice] \<and>
   teamMembers (fst (run mirror submit_uninitialized)) team1 = [alice] \<and>
   recomputeAdds mirror team1 (fst (run mirror submit_initialized)) = [(Some 0, Some 5)] \<and>
   recomputeAdds mirror team1 (fst (run mirror submit_uninitialized)) = [] \<and>
   length (recomputeAdds mirror team1 (fst (run mirror submit_uninitialized))) \<noteq>
     length (teamMembers (fst (run mirror submit_uninitialized)) team1)"
  by (simp add: exec_simps names)

subsection \<open>C3: a repeated callback\<close>

text \<open>
  Claim C3, as the code has it. The contract keeps no record that a request was fulfilled.
  Once a callback for a request has succeeded after some history (it left the storage as
  it was), then after every continuation of that history every callback for the same
  request whose proof verifies and whose payload decodes succeeds again: it leaves the
  storage as it is, and it emits \<open>AggregateDecrypted\<close> again, for the same team,
  carrying the value decoded from its own payload.
\<close>

theorem callback_repeats:
  assumes "decryptTeamAggregate cap e1 r ct1 pf1 (fst (run cap txs)) = Inr (s1, ev1)"
      and "FHE_checkSignatures cap r ct2 pf2"
      and "abi_decode_uint32 ct2 = Some v2"
  shows "s1 = fst (run cap txs) \<and>
         decryptTeamAggregate cap e2 r ct2 pf2 (fst (run cap (txs @ txs'))) =
           Inr (fst (run cap (txs @ txs')),
                [AggregateDecrypted (requestToTeamId (fst (run cap txs)) r) v2])"
proof -
  obtain s log where sl: "run cap txs = (s, log)" by (cases "run cap txs")
  have wf: "wellformed (s, log)" using wellformed_run [of cap txs] by (simp add: sl)
  from assms(1) have same: "s1 = s" and live: "idHash (teamAggregates s (requestToTeamId s r)) \<noteq> 0"
    by (auto simp: sl decrypt_cases split: if_splits option.splits)
  have issued: "r < counterRequest s"
  proof (rule ccontr)
    assume "\<not> r < counterRequest s"
    with wf have "requestToTeamId s r = 0" by (simp add: wellformed_def)
    with wf live show False by (simp add: wellformed_def)
  qed
  obtain s' log' where sl': "run_from cap (s, log) txs' = (s', log')"
    by (cases "run_from cap (s, log) txs'")
  have later: "run cap (txs @ txs') = (s', log')"
    by (simp add: run_append sl sl')
  from requests_kept_run_from [of s cap log txs'] issued
  have team: "requestToTeamId s' r = requestToTeamId s r" by (simp add: sl')
  from idHash_kept_run_from [OF wf live, of cap txs']
  have live': "idHash (teamAggregates s' (requestToTeamId s r)) \<noteq> 0" by (simp add: sl')
  show ?thesis
    unfolding later sl by (simp add: same decrypt_cases team live' assms(2,3))
qed

text \<open>
  The decryption flow of the specification's scenario: the callback with the cleartext 100
  and a valid proof succeeds, and it succeeds again after the same callback, a further
  submission and a recomputation.
\<close>

theorem callback_repeats_witness:
  "decryptTeamAggregate mirror (sender relayer 1004) 0 cleartext100 valid_proof
     (fst (run mirror request_flow)) =
     Inr (fst (run mirror request_flow), [AggregateDecrypted team1 100]) \<and>
   FHE_checkSignatures mirror 0 cleartext100 valid_proof \<and>
   abi_decode_uint32 cleartext100 = Some 100 \<and>
   decryptTeamAggregate mirror (sender relayer 1009) 0 cleartext100 valid_proof
     (fst (run mirror (request_flow @ aftermath))) =
     Inr (fst (run mirror (request_flow @ aftermath)), [AggregateDecrypted team1 100]) \<and>
   okrCount (fst (run mirror (request_flow @ aftermath))) = 3"
proof -
  let ?s = "fst (run mirror request_flow)"
  have sig: "FHE_checkSignatures mirror 0 cleartext100 valid_proof"
    by (simp add: mirror_def)
  have first: "decryptTeamAggregate mirror (sender relayer 1004) 0 cleartext100 valid_proof ?s =
      Inr (?s, [AggregateDecrypted team1 100])"
    by (simp add: decrypt_cases request_flow_state sig cleartext100_decodes) (simp add: team1_def)
  have grown: "okrCount (fst (run mirror (request_flow @ aftermath))) = 3"
    by (simp add: exec_simps names cleartext100_decodes [unfolded cleartext100_def])
  from callback_repeats [OF first sig cleartext100_decodes, of "sender relayer 1009" aftermath]
  have "decryptTeamAggregate mirror (sender relayer 1009) 0 cleartext100 valid_proof
     (fst (run mirror (request_flow @ aftermath))) =
     Inr (fst (run mirror (request_flow @ aftermath)), [AggregateDecrypted team1 100])"
    by (simp add: request_flow_state)
  with first sig cleartext100_decodes grown show ?thesis by simp
qed

text \<open>
  The claim as the specification states it fails: the log of the flow with one callback
  ends with one \<open>AggregateDecrypted\<close> event; a second valid callback for the same
  request appends a second one.
\<close>

theorem second_callback_emits_again:
  "snd (run mirror fulfilled_flow) =
     [OKRSubmitted 1 alice 1000, OKRSubmitted 2 bob 1001, TeamAggregated team1 1002,
      DecryptionRequested 0, AggregateDecrypted team1 100] \<and>
   snd (run mirror (fulfilled_flow @ [Callback (sender relayer 1005) 0 cleartext100 valid_proof])) =
     [OKRSubmitted 1 alice 1000, OKRSubmitted 2 bob 1001, TeamAggregated team1 1002,
      DecryptionRequested 0, AggregateDecrypted team1 100, AggregateDecrypted team1 100]"
  by (simp add: exec_simps names cleartext100_decodes [unfolded cleartext100_def])

subsection \<open>C4: access control\<close>

text \<open>
  Claim C4, as the code has it. No caller is denied. \<open>submitEncryptedOKR\<close> has no
  modifier and \<open>onlyTeamMember\<close> is an empty placeholder: the result of
  \<open>requestTeamAggregateDecryption\<close> does not depend on the caller, it reverts only when
  the team's aggregate is not initialized, and \<open>submitEncryptedOKR\<close> reverts only when
  the record counter overflows.
\<close>

theorem no_caller_is_denied:
  "requestTeamAggregateDecryption cap e T s = requestTeamAggregateDecryption cap e' T s \<and>
   (requestTeamAggregateDecryption cap e T s = Inl err \<longleftrightarrow>
      \<not> FHE_isInitialized cap (encryptedSum (teamAggregates s T)) \<and> err = Error ''No aggregate'') \<and>
   (submitEncryptedOKR cap e ob kr p T s = Inl err \<longleftrightarrow>
      2 ^ 256 \<le> okrCount s + 1 \<and> err = Panic_overflow)"
  by (auto simp: requestTeamAggregateDecryption_def onlyTeamMember_def FHE_requestDecryption_def
      submitEncryptedOKR_def Let_def)

text \<open>
  The claim as the specification states it fails for the policy "requester must be a
  recorded team member": an address that never submitted to the team is not in its member
  list, yet its decryption request is recorded and announced, and its submission is
  stored and makes it a member.
\<close>

theorem stranger_is_admitted:
  "\<not> isRecordedMember (fst (run mirror computed_40_60)) mallory team1 \<and>
   snd (run mirror (computed_40_60 @ [RequestDecryption (sender mallory 1003) team1])) =
     snd (run mirror computed_40_60) @ [DecryptionRequested 0] \<and>
   requestToTeamId (fst (run mirror
     (computed_40_60 @ [RequestDecryption (sender mallory 1003) team1]))) 0 = team1 \<and>
   snd (run mirror (computed_40_60 @ [Submit (sender mallory 1003) None None (Some 7) team1])) =
     snd (run mirror computed_40_60) @ [OKRSubmitted 3 mallory 1003] \<and>
   teamMembers (fst (run mirror
     (computed_40_60 @ [Submit (sender mallory 1003) None None (Some 7) team1]))) team1 =
     [alice, bob, mallory]"
  by (simp add: exec_simps names isRecordedMember_def)

subsection \<open>C5: latest wins\<close>

text \<open>
  Claim C5. The ciphertext that \<open>findLatestEncryptedProgress\<close> resolves for an owner is
  the progress of the record with the greatest identifier among the stored records that
  owner owns, whatever team each was submitted to (a record does not store a team); for
  an owner with no record it is the encryption of zero.
\<close>

theorem latest_is_greatest_id:
  "findLatestEncryptedProgress cap s a =
     (if ownedIds s a = [] then FHE_asEuint32 cap 0
      else encryptedProgress (encryptedOkrs s (Max (set (ownedIds s a)))))"
  unfolding findLatestEncryptedProgress_def ownedIds_def by (rule scanLatest_greatest)

text \<open>
  The scenario of the claim: an owner submits 20 and later 80 to a team. The scan resolves
  80, and the recomputation of the team adds 80 for each of the owner's two entries and
  never 20. It resolves 80 as well when the second submission went to another team.
\<close>

theorem latest_is_greatest_id_witness:
  "ownedIds (fst (run mirror submit_20_80)) alice = [1, 2] \<and>
   findLatestEncryptedProgress mirror (fst (run mirror submit_20_80)) alice = Some 80 \<and>
   recomputeAdds mirror team1 (fst (run mirror submit_20_80)) =
     [(Some 0, Some 80), (Some 80, Some 80)] \<and>
   ownedIds (fst (run mirror submit_20_80_elsewhere)) alice = [1, 2] \<and>
   findLatestEncryptedProgress mirror (fst (run mirror submit_20_80_elsewhere)) alice = Some 80 \<and>
   recomputeAdds mirror team1 (fst (run mirror submit_20_80_elsewhere)) = [(Some 0, Some 80)] \<and>
   ownedIds (fst (run mirror submit_20_80)) bob = [] \<and>
   findLatestEncryptedProgress mirror (fst (run mirror submit_20_80)) bob = Some 0"
proof -
  let ?s = "fst (run mirror submit_20_80)" and ?s' = "fst (run mirror submit_20_80_elsewhere)"
  have count: "okrCount ?s = 2" "okrCount ?s' = 2"
    by (simp_all add: exec_simps names)
  have upt: "[1..<Suc 2] = [1, 2]"
    by (simp add: upt_rec)
  have ids: "ownedIds ?s alice = [1, 2]" "ownedIds ?s' alice = [1, 2]" "ownedIds ?s bob = []"
    unfolding ownedIds_def count upt by (simp_all add: exec_simps names)
  have rec: "encryptedProgress (encryptedOkrs ?s 2) = Some 80"
      "encryptedProgress (encryptedOkrs ?s' 2) = Some 80"
    by (simp_all add: exec_simps names)
  have zero: "FHE_asEuint32 mirror 0 = Some 0"
    by (simp add: mirror_def)
  have greatest: "Max (set [1, 2 :: nat]) = 2"
    by simp
  have a: "findLatestEncryptedProgress mirror ?s alice = Some 80"
    using latest_is_greatest_id [of mirror ?s alice] unfolding ids greatest by (simp add: rec)
  have b: "findLatestEncryptedProgress mirror ?s' alice = Some 80"
    using latest_is_greatest_id [of mirror ?s' alice] unfolding ids greatest by (simp add: rec)
  have c: "findLatestEncryptedProgress mirror ?s bob = Some 0"
    using latest_is_greatest_id [of mirror ?s bob] by (simp add: ids zero)
  have init: "FHE_isInitialized mirror (Some v)" for v :: uint32
    by (simp add: mirror_def)
  have add: "FHE_add mirror (Some x) (Some y) = Some (x + y)" for x y :: uint32
    by (simp add: mirror_def plain_def)
  have members: "teamMembers ?s team1 = [alice, alice]" "teamMembers ?s' team1 = [alice]"
    by (simp_all add: exec_simps names)
  have adds: "recomputeAdds mirror team1 ?s = [(Some 0, Some 80), (Some 80, Some 80)]"
      "recomputeAdds mirror team1 ?s' = [(Some 0, Some 80)]"
    unfolding recomputeAdds_def members by (simp_all add: a b zero init add Let_def)
  from ids a b c adds show ?thesis by simp
qed

subsection \<open>C6: record identifiers\<close>

text \<open>
  Claim C6. After any history, the identifiers that the \<open>OKRSubmitted\<close> events announce
  are exactly \<open>1, 2, ..., okrCount\<close> in order, hence strictly increasing and without
  repetition; while fewer than \<open>2^256\<close> transactions
  were made, a submission after \<open>n\<close> earlier ones receives the identifier \<open>n + 1\<close>;
  the record stored under an identifier carries it, and no later transaction of any kind
  changes a stored record.
\<close>

theorem ids_sequential:
  "submittedIds (snd (run cap txs)) = [1..<Suc (okrCount (fst (run cap txs)))] \<and>
   sorted_wrt (<) (submittedIds (snd (run cap txs))) \<and>
   distinct (submittedIds (snd (run cap txs))) \<and>
   (Suc (length txs) < 2 ^ 256 \<longrightarrow>
      snd (run cap (txs @ [Submit e ob kr p T])) =
        snd (run cap txs) @
          [OKRSubmitted (Suc (length (filter isSubmit txs))) (msg_sender e) (block_timestamp e)]) \<and>
   (\<forall>i. 1 \<le> i \<and> i \<le> okrCount (fst (run cap txs)) \<longrightarrow>
      id_okr (encryptedOkrs (fst (run cap txs)) i) = i \<and>
      encryptedOkrs (fst (run cap (txs @ txs'))) i = encryptedOkrs (fst (run cap txs)) i)"
proof -
  obtain s log where sl: "run cap txs = (s, log)" by (cases "run cap txs")
  have wf: "wellformed (s, log)" using wellformed_run [of cap txs] by (simp add: sl)
  have a: "submittedIds (snd (run cap txs)) = [1..<Suc (okrCount (fst (run cap txs)))]"
    using wf by (simp add: sl wellformed_def)
  have b: "snd (run cap (txs @ [Submit e ob kr p T])) =
        snd (run cap txs) @
          [OKRSubmitted (Suc (length (filter isSubmit txs))) (msg_sender e) (block_timestamp e)]"
    if len: "Suc (length txs) < 2 ^ 256"
  proof -
    from len have "length txs < 2 ^ 256" by linarith
    then have tr: "tracks cap txs s" using tracks_run [of txs cap] by (simp add: sl)
    then have cnt: "okrCount s = length (filter isSubmit txs)" by (simp add: tracks_def)
    then have "okrCount s \<le> length txs" by simp
    with len have "\<not> 2 ^ 256 \<le> okrCount s + 1" by linarith
    then show ?thesis by (simp add: run_snoc sl transact_Submit cnt)
  qed
  have c: "id_okr (encryptedOkrs (fst (run cap txs)) i) = i \<and>
      encryptedOkrs (fst (run cap (txs @ txs'))) i = encryptedOkrs (fst (run cap txs)) i"
    if "1 \<le> i \<and> i \<le> okrCount (fst (run cap txs))" for i
    using that wf records_kept_run_from [of s cap log txs']
    by (simp add: sl run_append wellformed_def)
  have d: "sorted_wrt (<) (submittedIds (snd (run cap txs)))"
      "distinct (submittedIds (snd (run cap txs)))"
    by (simp_all only: a sorted_wrt_upt distinct_upt)
  from a b c d show ?thesis by blast
qed

text \<open>
  Two submissions receive 1 and 2, a third receives 3, and the second record is the same
  after a recomputation and a further submission.
\<close>

theorem ids_sequential_witness:
  "Suc (length submit_40_60) < 2 ^ 256 \<and>
   submittedIds (snd (run mirror submit_40_60)) = [1, 2] \<and>
   snd (run mirror (submit_40_60 @ [Submit (sender alice 1005) None None (Some 80) team1])) =
     snd (run mirror submit_40_60) @ [OKRSubmitted 3 alice 1005] \<and>
   id_okr (encryptedOkrs (fst (run mirror submit_40_60)) 2) = 2 \<and>
   encryptedOkrs (fst (run mirror (submit_40_60 @
       [Recompute (sender bob 1002) team1,
        Submit (sender alice 1005) None None (Some 80) team1]))) 2 =
     encryptedOkrs (fst (run mirror submit_40_60)) 2"
proof -
  have len: "Suc (length submit_40_60) < 2 ^ 256"
    by (simp add: submit_40_60_def)
  have count: "okrCount (fst (run mirror submit_40_60)) = 2"
    by (simp add: exec_simps names)
  have subs: "length (filter isSubmit submit_40_60) = 2"
    by (simp add: submit_40_60_def)
  have upt: "[1..<Suc 2] = [1, 2]"
    by (simp add: upt_rec)
  note inst = ids_sequential [of mirror submit_40_60 "sender alice 1005" None None "Some 80" team1
      "[Recompute (sender bob 1002) team1, Submit (sender alice 1005) None None (Some 80) team1]"]
  have a: "submittedIds (snd (run mirror submit_40_60)) = [1, 2]"
    using inst [THEN conjunct1] by (simp only: count upt)
  have b: "snd (run mirror (submit_40_60 @ [Submit (sender alice 1005) None None (Some 80) team1])) =
      snd (run mirror submit_40_60) @ [OKRSubmitted 3 alice 1005]"
    using inst [THEN conjunct2, THEN conjunct2, THEN conjunct2, THEN conjunct1, rule_format, OF len]
    by (simp add: subs sender_def)
  have c: "id_okr (encryptedOkrs (fst (run mirror submit_40_60)) 2) = 2 \<and>
      encryptedOkrs (fst (run mirror (submit_40_60 @
        [Recompute (sender bob 1002) team1,
         Submit (sender alice 1005) None None (Some 80) team1]))) 2 =
      encryptedOkrs (fst (run mirror submit_40_60)) 2"
    using inst [THEN conjunct2, THEN conjunct2, THEN conjunct2, THEN conjunct2, rule_format, of 2]
    by (simp add: count)
  from len a b c show ?thesis by simp
qed

subsection \<open>C7: recomputation is idempotent\<close>

text \<open>
  Claim C7. Of two calls of \<open>recomputeTeamAggregate\<close> for one team with no submission
  between them (any decryption requests, callbacks and recomputations of any team may
  stand between), on any storage, the second stores the same \<open>encryptedSum\<close> as the
  first: it leaves the storage it found but for the team's aggregate, which is the one the
  first call stored with \<open>lastUpdated\<close> set to the time of the second.
\<close>

theorem recompute_idempotent:
  assumes "recomputeTeamAggregate cap e1 T s = Inr (s1, ev1)"
      and "list_all (\<lambda>t. \<not> isSubmit t) txs"
      and "recomputeTeamAggregate cap e2 T (fst (run_from cap (s1, log) txs)) = Inr (s2, ev2)"
  shows "encryptedSum (teamAggregates s2 T) = encryptedSum (teamAggregates s1 T) \<and>
         s2 = (fst (run_from cap (s1, log) txs))
                \<lparr>teamAggregates := (teamAggregates (fst (run_from cap (s1, log) txs)))
                   (T := (teamAggregates s1 T)\<lparr>lastUpdated := block_timestamp e2\<rparr>)\<rparr>"
proof -
  define acc where "acc = fst (sumMembers cap s (teamMembers s T) (FHE_asEuint32 cap 0, []))"
  from assms(1) have s1: "s1 = s\<lparr>teamAggregates := (teamAggregates s)(T :=
       \<lparr>idHash = T, encryptedSum = acc, lastUpdated = block_timestamp e1\<rparr>)\<rparr>"
    by (auto simp: recomputeTeamAggregate_def Let_def acc_def)
  have same: "sumMembers cap s1 ms p = sumMembers cap s ms p" for ms p
    by (rule sumMembers_agree) (simp_all add: s1)
  have mem: "teamMembers s1 T = teamMembers s T" by (simp add: s1)
  have agg1: "teamAggregates s1 T =
      \<lparr>idHash = T, encryptedSum = acc, lastUpdated = block_timestamp e1\<rparr>"
    by (simp add: s1)
  define sm where "sm = fst (run_from cap (s1, log) txs)"
  from frame_run_from [OF assms(2), of cap s1 log] have fr: "okrCount sm = okrCount s1"
      "encryptedOkrs sm = encryptedOkrs s1" "teamMembers sm = teamMembers s1"
    by (simp_all add: sm_def)
  have same': "sumMembers cap sm ms p = sumMembers cap s ms p" for ms p
    using sumMembers_agree [of sm s1 cap ms p] fr by (simp add: same)
  from assms(3) have s2: "s2 = sm\<lparr>teamAggregates := (teamAggregates sm)(T :=
       \<lparr>idHash = T, encryptedSum = acc, lastUpdated = block_timestamp e2\<rparr>)\<rparr>"
    by (auto simp: recomputeTeamAggregate_def Let_def sm_def [symmetric] same' fr mem acc_def)
  show ?thesis
    unfolding sm_def [symmetric] by (simp add: s2 agg1)
qed

text \<open>
  The team of the scenario is recomputed at the time 1002; a decryption request, its
  callback and a recomputation of another team follow; the recomputation at the time 1009
  stores the encryption of 100 again.
\<close>

theorem recompute_idempotent_witness:
  "list_all (\<lambda>t. \<not> isSubmit t) interlude \<and>
   encryptedSum (teamAggregates (fst (run mirror
      (computed_40_60 @ interlude @ [Recompute (sender alice 1009) team1]))) team1) =
     encryptedSum (teamAggregates (fst (run mirror computed_40_60)) team1) \<and>
   encryptedSum (teamAggregates (fst (run mirror computed_40_60)) team1) = Some 100 \<and>
   lastUpdated (teamAggregates (fst (run mirror computed_40_60)) team1) = 1002 \<and>
   lastUpdated (teamAggregates (fst (run mirror
      (computed_40_60 @ interlude @ [Recompute (sender alice 1009) team1]))) team1) = 1009 \<and>
   snd (run mirror (computed_40_60 @ interlude)) =
     snd (run mirror computed_40_60) @
       [DecryptionRequested 0, AggregateDecrypted team1 100, TeamAggregated team2 1005]"
proof -
  let ?s1 = "fst (run mirror computed_40_60)" and ?log = "snd (run mirror computed_40_60)"
  let ?s2 = "fst (run mirror (computed_40_60 @ interlude @ [Recompute (sender alice 1009) team1]))"
  have quiet: "list_all (\<lambda>t. \<not> isSubmit t) interlude"
    by (simp add: interlude_def)
  have between: "run_from mirror (?s1, ?log) interlude = run mirror (computed_40_60 @ interlude)"
    by (simp add: run_append)
  have first: "recomputeTeamAggregate mirror (sender bob 1002) team1 (fst (run mirror submit_40_60)) =
      Inr (?s1, [TeamAggregated team1 (block_timestamp (sender bob 1002))])"
    unfolding computed_40_60_def by (rule recompute_run)
  have second: "recomputeTeamAggregate mirror (sender alice 1009) team1
        (fst (run_from mirror (?s1, ?log) interlude)) =
      Inr (?s2, [TeamAggregated team1 (block_timestamp (sender alice 1009))])"
    unfolding between
    using recompute_run [of mirror "sender alice 1009" team1 "computed_40_60 @ interlude"]
    by simp
  have val: "encryptedSum (teamAggregates ?s1 team1) = Some 100"
      "lastUpdated (teamAggregates ?s1 team1) = 1002"
    by (simp_all add: exec_simps names)
  have events: "snd (run mirror (computed_40_60 @ interlude)) =
      ?log @ [DecryptionRequested 0, AggregateDecrypted team1 100, TeamAggregated team2 1005]"
    by (simp add: exec_simps names cleartext100_decodes [unfolded cleartext100_def])
  note inst = recompute_idempotent [OF first quiet second]
  have same: "encryptedSum (teamAggregates ?s2 team1) = encryptedSum (teamAggregates ?s1 team1)"
    by (rule inst [THEN conjunct1])
  have "lastUpdated (teamAggregates ?s2 team1) = 1009"
    by (subst inst [THEN conjunct2]) (simp add: sender_def)
  with quiet same val events show ?thesis by simp
qed

subsection \<open>C8: requesting a decryption\<close>

text \<open>
  Claim C8. Under a capability whose zero value is not initialized and whose constructed
  ciphertexts are, after any history: when the team was never recomputed, the request
  reverts with "No aggregate" and the transaction changes neither storage nor log; when
  it was, the request succeeds, allocates the next request identifier, which no earlier
  \<open>DecryptionRequested\<close> event announced, hands the aggregate's transport form to the
  oracle, records the identifier for the team, and emits \<open>DecryptionRequested\<close> with it.
\<close>

theorem request_requires_aggregate:
  assumes "initializes cap"
  shows "(\<not> (\<exists>t \<in> set txs. isRecomputeOf T t) \<longrightarrow>
            requestTeamAggregateDecryption cap e T (fst (run cap txs)) = Inl (Error ''No aggregate'') \<and>
            transact cap (run cap txs) (RequestDecryption e T) = run cap txs) \<and>
         ((\<exists>t \<in> set txs. isRecomputeOf T t) \<longrightarrow>
            requestTeamAggregateDecryption cap e T (fst (run cap txs)) =
              Inr ((fst (run cap txs))
                     \<lparr>counterRequest := counterRequest (fst (run cap txs)) + 1,
                      requestedHandles := (requestedHandles (fst (run cap txs)))
                        (counterRequest (fst (run cap txs)) :=
                           [FHE_toBytes32 cap (encryptedSum (teamAggregates (fst (run cap txs)) T))]),
                      requestToTeamId := (requestToTeamId (fst (run cap txs)))
                        (counterRequest (fst (run cap txs)) := T)\<rparr>,
                   [DecryptionRequested (counterRequest (fst (run cap txs)))]) \<and>
            counterRequest (fst (run cap txs)) \<notin> set (requestedIds (snd (run cap txs))))"
proof -
  obtain s log where sl: "run cap txs = (s, log)" by (cases "run cap txs")
  have wf: "wellformed (s, log)" using wellformed_run [of cap txs] by (simp add: sl)
  have null: "\<not> FHE_isInitialized cap (FHE_null cap)" using assms by (simp add: initializes_def)
  have fresh: "counterRequest s \<notin> set (requestedIds log)"
    using wf by (simp add: wellformed_def)
  from aggregate_status [of txs T cap] assms null fresh show ?thesis
    by (auto simp: sl requestTeamAggregateDecryption_def onlyTeamMember_def
        FHE_requestDecryption_def Let_def transact_def)
qed

text \<open>
  After the recomputation of the first team of the scenario, a request for the second team
  reverts and a request for the first is recorded under the identifier 0.
\<close>

theorem request_requires_aggregate_witness:
  "initializes mirror \<and>
   list_ex (isRecomputeOf team1) computed_40_60 \<and>
   \<not> list_ex (isRecomputeOf team2) computed_40_60 \<and>
   requestTeamAggregateDecryption mirror (sender bob 1003) team2 (fst (run mirror computed_40_60)) =
     Inl (Error ''No aggregate'') \<and>
   requestTeamAggregateDecryption mirror (sender bob 1003) team1 (fst (run mirror computed_40_60)) =
     Inr ((fst (run mirror computed_40_60))
            \<lparr>counterRequest := 1,
             requestedHandles := (requestedHandles (fst (run mirror computed_40_60)))
               (0 := [2 ^ 32 + 100]),
             requestToTeamId := (requestToTeamId (fst (run mirror computed_40_60)))(0 := team1)\<rparr>,
          [DecryptionRequested 0]) \<and>
   0 \<notin> set (requestedIds (snd (run mirror computed_40_60)))"
proof -
  let ?s = "fst (run mirror computed_40_60)"
  note init = mirror_initializes
  have done1: "list_ex (isRecomputeOf team1) computed_40_60"
    and none2: "\<not> list_ex (isRecomputeOf team2) computed_40_60"
    by (simp_all add: names)
  have facts: "counterRequest ?s = 0"
      "FHE_toBytes32 mirror (encryptedSum (teamAggregates ?s team1)) = 2 ^ 32 + 100"
    by (simp_all add: exec_simps names)
  from request_requires_aggregate [OF init, of computed_40_60 team2 "sender bob 1003"] none2
  have a: "requestTeamAggregateDecryption mirror (sender bob 1003) team2 ?s =
      Inl (Error ''No aggregate'')"
    by (simp add: list_ex_iff)
  from request_requires_aggregate [OF init, of computed_40_60 team1 "sender bob 1003"] done1
  have b: "requestTeamAggregateDecryption mirror (sender bob 1003) team1 ?s =
     Inr (?s\<lparr>counterRequest := 1,
             requestedHandles := (requestedHandles ?s)(0 := [2 ^ 32 + 100]),
             requestToTeamId := (requestToTeamId ?s)(0 := team1)\<rparr>,
          [DecryptionRequested 0]) \<and>
     0 \<notin> set (requestedIds (snd (run mirror computed_40_60)))"
    by (simp add: list_ex_iff facts)
  from init done1 none2 a b show ?thesis by simp
qed

subsection \<open>C9: a callback for an unknown request\<close>

text \<open>
  Claim C9. After any history, a callback for a request identifier that no
  \<open>DecryptionRequested\<close> event announced reverts with "Invalid team", whatever its
  payload and proof: the transaction changes neither storage nor log.
\<close>

theorem unknown_request_rejected:
  assumes "r \<notin> set (requestedIds (snd (run cap txs)))"
  shows "decryptTeamAggregate cap e r ct pf (fst (run cap txs)) = Inl (Error ''Invalid team'') \<and>
         transact cap (run cap txs) (Callback e r ct pf) = run cap txs"
proof -
  obtain s log where sl: "run cap txs = (s, log)" by (cases "run cap txs")
  have wf: "wellformed (s, log)" using wellformed_run [of cap txs] by (simp add: sl)
  from assms wf have "counterRequest s \<le> r" by (simp add: sl wellformed_def)
  with wf have "requestToTeamId s r = 0" by (simp add: wellformed_def)
  with wf have "idHash (teamAggregates s (requestToTeamId s r)) = 0" by (simp add: wellformed_def)
  then show ?thesis by (simp add: sl decrypt_cases transact_Callback)
qed

text \<open>
  In the decryption flow of the scenario only the identifier 0 was issued; a callback for
  7 is rejected.
\<close>

theorem unknown_request_rejected_witness:
  "7 \<notin> set (requestedIds (snd (run mirror request_flow))) \<and>
   decryptTeamAggregate mirror (sender relayer 1004) 7 cleartext100 valid_proof
     (fst (run mirror request_flow)) = Inl (Error ''Invalid team'') \<and>
   transact mirror (run mirror request_flow)
     (Callback (sender relayer 1004) 7 cleartext100 valid_proof) = run mirror request_flow"
proof -
  have ids: "requestedIds (snd (run mirror request_flow)) = [0]"
    by (simp add: exec_simps names requestedIds_def)
  then have unknown: "7 \<notin> set (requestedIds (snd (run mirror request_flow)))"
    by simp
  from unknown_request_rejected [OF unknown] unknown show ?thesis by simp
qed

subsection \<open>C10: the all-zero team\<close>



end
